theory Spec2Isabelle
  imports Complex_Main
begin

section \<open>Data model of \<open>plicVofSolving\<close>\<close>

text \<open>
  The embedding follows \<^verbatim>\<open>src/plic/plicVofSolving/plicVofSolving.H\<close>.
  OpenFOAM's \<^verbatim>\<open>scalar\<close> (a double) is idealised as a real number, so rounding,
  infinities and NaN are outside the model. A \<^verbatim>\<open>label\<close> is OpenFOAM's index
  type; every label stored or passed by the functions below is a cell or face index
  and is a natural number here. A surface field is a list indexed by the face label
  (internal and boundary faces in one index space), a volume field's internal part a list
  indexed by the cell label.
\<close>

type_synonym scalar = real
type_synonym label = nat
type_synonym vector = "real \<times> real \<times> real"

text \<open>
  Modelled from the spec: \<^verbatim>\<open>plicInterface\<close> (declared in
  \<^verbatim>\<open>plicInterfaceField.H\<close>, which is absent). The spec's InterfacePlane is a
  unit normal with a scalar offset.
\<close>

record plicInterface =
  planeNormal :: vector
  planeOffset :: scalar

text \<open>
  The mesh is an external collaborator (\<^verbatim>\<open>fvMesh\<close>); the record holds the
  queries the class makes of it: \<^verbatim>\<open>nCells()\<close>, \<^verbatim>\<open>topoChanging()\<close>,
  \<^verbatim>\<open>time().deltaT()\<close>, the faces with their owner and neighbour cells
  (a boundary face has no neighbour) and unit normals, and the cell volumes.
\<close>

record face =
  owner :: label
  neighbour :: "label option"
  nHat :: vector

record fvMesh =
  nCells :: nat
  topoChanging :: bool
  deltaT :: scalar
  faces :: "face list"
  V :: "scalar list"

text \<open>
  The private data of the class, without the trailing underscores. Members that none of
  the embedded functions reads or writes (the controls dictionary, the timers and mass
  diagnostics, the cutting objects, the switches and the processor-patch lists) are left
  out. \<open>Ub\<close> is the boundary part of the velocity field, indexed by the face label.
\<close>

record plicVofSolving =
  mesh :: fvMesh
  alpha1In :: "scalar list"
  plicInterfaceField :: "plicInterface list"
  phi :: "scalar list"
  U :: "vector list"
  Ub :: "vector list"
  dVf :: "scalar list"
  nAlphaBounds :: nat
  surfCellTol :: scalar
  mixedCells :: "label list"
  cellStatus :: "label list"
  cellIsBounded :: "bool list"
  checkBounding :: "bool list"
  bsFaces :: "label list"
  bsUn0 :: "scalar list"
  bsInterface0 :: "plicInterface list"

section \<open>Functions defined in the header\<close>

subsection \<open>Cell classification predicates\<close>

text \<open>
  The three predicates read \<^verbatim>\<open>alpha1In_[cellI]\<close> without a range check. For a
  label outside the field the value read is indeterminate in the source and unspecified
  here; the properties proved of the predicates hold for whatever value is read.
\<close>

definition isAMixedCell :: "plicVofSolving \<Rightarrow> label \<Rightarrow> bool" where
  "isAMixedCell s cellI \<longleftrightarrow>
     surfCellTol s < alpha1In s ! cellI \<and> alpha1In s ! cellI < 1 - surfCellTol s"

definition isAnEmptyCell :: "plicVofSolving \<Rightarrow> label \<Rightarrow> bool" where
  "isAnEmptyCell s cellI \<longleftrightarrow> alpha1In s ! cellI \<le> surfCellTol s"

definition isAFullCell :: "plicVofSolving \<Rightarrow> label \<Rightarrow> bool" where
  "isAFullCell s cellI \<longleftrightarrow> alpha1In s ! cellI \<ge> 1 - surfCellTol s"

subsection \<open>\<open>clearPlicInterfaceData\<close>\<close>

text \<open>
  \<^verbatim>\<open>List<bool>::resize(n)\<close> keeps the first \<open>n\<close> entries and, when the list
  grows, leaves the fresh entries indeterminate. The indeterminate content is the
  parameter \<open>junk\<close> (what the memory held, by index); every result below holds for
  all of them.
\<close>

definition resize :: "(nat \<Rightarrow> bool) \<Rightarrow> nat \<Rightarrow> bool list \<Rightarrow> bool list" where
  "resize junk n xs = take n xs @ map junk [length xs..<n]"

text \<open>\<^verbatim>\<open>boolList = false\<close> assigns \<open>false\<close> to every entry and keeps the size.\<close>

definition assignAll :: "bool \<Rightarrow> bool list \<Rightarrow> bool list" where
  "assignAll b xs = map (\<lambda>_. b) xs"

definition clearPlicInterfaceData :: "(nat \<Rightarrow> bool) \<Rightarrow> plicVofSolving \<Rightarrow> plicVofSolving" where
  "clearPlicInterfaceData junk s =
     (let s1 = s\<lparr>mixedCells := [], cellStatus := [], bsFaces := [], bsUn0 := [],
                 bsInterface0 := []\<rparr>;
          s2 = (if topoChanging (mesh s1)
                then s1\<lparr>checkBounding := resize junk (nCells (mesh s1)) (checkBounding s1),
                        cellIsBounded := resize junk (nCells (mesh s1)) (cellIsBounded s1)\<rparr>
                else s1)
      in s2\<lparr>checkBounding := assignAll False (checkBounding s2),
             cellIsBounded := assignAll False (cellIsBounded s2)\<rparr>)"

subsection \<open>\<open>getRhoPhi\<close>\<close>

text \<open>
  The field expression \<^verbatim>\<open>(rho1 - rho2)*dVf_/mesh_.time().deltaT() + rho2*phi_\<close>
  is built from three field operations: a scalar times a field, a field divided by a
  scalar, and the sum of two fields over the same mesh.
\<close>

definition scalarTimesField :: "scalar \<Rightarrow> scalar list \<Rightarrow> scalar list" where
  "scalarTimesField a f = map (\<lambda>x. a * x) f"

definition fieldDivScalar :: "scalar list \<Rightarrow> scalar \<Rightarrow> scalar list" where
  "fieldDivScalar f a = map (\<lambda>x. x / a) f"

definition fieldPlus :: "scalar list \<Rightarrow> scalar list \<Rightarrow> scalar list" where
  "fieldPlus f g = map2 (+) f g"

text \<open>
  \<^verbatim>\<open>getRhoPhi\<close> is a \<^verbatim>\<open>const\<close> member function: it returns the new field
  and leaves the object as it was, which the returned state makes explicit.
\<close>

definition getRhoPhi :: "plicVofSolving \<Rightarrow> scalar \<Rightarrow> scalar \<Rightarrow> scalar list \<times> plicVofSolving" where
  "getRhoPhi s rho1 rho2 =
     (fieldPlus
        (fieldDivScalar (scalarTimesField (rho1 - rho2) (dVf s)) (deltaT (mesh s)))
        (scalarTimesField rho2 (phi s)),
      s)"

section \<open>Functions declared in the header and described by the specification\<close>

subsection \<open>\<open>getMixedCellList\<close>\<close>

text \<open>
  Modelled from the spec: the body of \<^verbatim>\<open>getMixedCellList\<close>
  (\<^verbatim>\<open>plicVofSolving.C\<close> is absent). The transition from Idle to Classified
  clears the per-cell caches first, then scans all cells and puts each cell of the mixed
  band on the mixed-cell list. The clearing is the header's \<open>clearPlicInterfaceData\<close>,
  which itself resizes on a topology change only; the band test is the header's
  \<open>isAMixedCell\<close>.
\<close>

fun scanCells :: "plicVofSolving \<Rightarrow> label list \<Rightarrow> plicVofSolving" where
  "scanCells s [] = s"
| "scanCells s (cellI # rest) =
     scanCells (if isAMixedCell s cellI then s\<lparr>mixedCells := mixedCells s @ [cellI]\<rparr> else s)
       rest"

definition getMixedCellList :: "(nat \<Rightarrow> bool) \<Rightarrow> plicVofSolving \<Rightarrow> plicVofSolving" where
  "getMixedCellList junk s =
     scanCells (clearPlicInterfaceData junk s) [0..<length (alpha1In s)]"

subsection \<open>Flux integration\<close>

text \<open>
  Modelled from the spec: the CellStatus tag (empty, mixed or full) that the
  classification by tolerance band gives a cell; the header has the three band
  predicates only. The tag tests the mixed band first, then the empty band; a cell in
  neither is in the full band.
\<close>

datatype CellStatus = Empty | Mixed | Full

definition cellStatusOf :: "plicVofSolving \<Rightarrow> label \<Rightarrow> CellStatus" where
  "cellStatusOf s cellI =
     (if isAMixedCell s cellI then Mixed
      else if isAnEmptyCell s cellI then Empty
      else Full)"

definition dot :: "vector \<Rightarrow> vector \<Rightarrow> scalar" where
  "dot a b =
     (case a of (ax, ay, az) \<Rightarrow> case b of (bx, by, bz) \<Rightarrow> ax * bx + ay * by + az * bz)"

text \<open>
  Modelled from the spec: the upwind convention of \<^verbatim>\<open>timeIntegratedFlux\<close> and
  \<^verbatim>\<open>setDownwindFaces\<close> (declared only; \<^verbatim>\<open>plicVofSolving.C\<close> is absent).
  The upwind cell of a face is the cell the flux is leaving, by the sign of \<open>phi\<close>:
  the owner for a flux that is not negative, the neighbour otherwise. At a boundary face
  the adjoining internal cell stands in.
\<close>

definition upwindCell :: "face \<Rightarrow> scalar \<Rightarrow> label" where
  "upwindCell f ph =
     (case neighbour f of
        None \<Rightarrow> owner f
      | Some n \<Rightarrow> if 0 \<le> ph then owner f else n)"

text \<open>
  Modelled from the spec: the swept distance of a face, the face-normal component of
  the velocity integrated over the sub-interval. The velocity is the upwind cell's at an
  internal face and the boundary condition's at a boundary face.
\<close>

definition faceVelocity :: "plicVofSolving \<Rightarrow> label \<Rightarrow> vector" where
  "faceVelocity s faceI =
     (let f = faces (mesh s) ! faceI
      in case neighbour f of
           None \<Rightarrow> Ub s ! faceI
         | Some _ \<Rightarrow> U s ! upwindCell f (phi s ! faceI))"

definition sweptDistance :: "plicVofSolving \<Rightarrow> label \<Rightarrow> scalar" where
  "sweptDistance s faceI =
     dot (faceVelocity s faceI) (nHat (faces (mesh s) ! faceI)) * deltaT (mesh s)"

text \<open>
  Modelled from the spec: the face-cutting engine (\<^verbatim>\<open>plicCutFace\<close>, declared
  in \<^verbatim>\<open>plicCutFace.H\<close>, which is absent), with the contract
  \<open>integrate(face, interfacePlane, sweepDisplacement)\<close>. The transported volume is the
  area of the part of the face polygon on the reference-fluid side of the displaced
  plane times the swept thickness. The polygon clipping that yields the area is the
  parameter \<open>subArea\<close>; the correction for non-planar faces, which the spec names
  without a formula, is not modelled.
\<close>

definition integrate ::
  "(label \<Rightarrow> plicInterface \<Rightarrow> scalar \<Rightarrow> scalar) \<Rightarrow> label \<Rightarrow> plicInterface \<Rightarrow> scalar \<Rightarrow> scalar"
where
  "integrate subArea faceI plane sweep = subArea faceI plane sweep * sweep"

text \<open>
  Modelled from the spec: the BoundaryInterfaceCache over the header's lists
  \<open>bsFaces\<close>, \<open>bsUn0\<close> and \<open>bsInterface0\<close>. A boundary face whose owner is mixed
  gets a snapshot of the owner's interface plane and normal speed; the most recent
  snapshot of a face is the one looked up.
\<close>

fun retainSnapshots :: "plicVofSolving \<Rightarrow> label list \<Rightarrow> plicVofSolving" where
  "retainSnapshots s [] = s"
| "retainSnapshots s (faceI # rest) =
     retainSnapshots
       (if neighbour (faces (mesh s) ! faceI) = None
           \<and> cellStatusOf s (owner (faces (mesh s) ! faceI)) = Mixed
        then s\<lparr>bsFaces := bsFaces s @ [faceI],
               bsUn0 := bsUn0 s @
                 [dot (faceVelocity s faceI)
                    (planeNormal (plicInterfaceField s ! owner (faces (mesh s) ! faceI)))],
               bsInterface0 := bsInterface0 s @
                 [plicInterfaceField s ! owner (faces (mesh s) ! faceI)]\<rparr>
        else s)
       rest"

definition cachedInterface :: "plicVofSolving \<Rightarrow> label \<Rightarrow> plicInterface option" where
  "cachedInterface s faceI = map_of (rev (zip (bsFaces s) (bsInterface0 s))) faceI"

text \<open>
  Modelled from the spec: the transport volume of one face for the sub-interval
  (the per-face step of \<^verbatim>\<open>timeIntegratedFlux\<close>). By the status of the upwind
  cell: a full cell sends the whole face flux of the sub-interval, an empty cell nothing,
  a mixed cell what the face-cutting engine integrates for its interface plane. A
  boundary face uses its cached interface when there is one and the status of the
  adjoining cell otherwise.
\<close>

definition transportByStatus ::
  "(label \<Rightarrow> plicInterface \<Rightarrow> scalar \<Rightarrow> scalar) \<Rightarrow> plicVofSolving \<Rightarrow> label \<Rightarrow> label \<Rightarrow> scalar"
where
  "transportByStatus subArea s faceI cellI =
     (case cellStatusOf s cellI of
        Full \<Rightarrow> phi s ! faceI * deltaT (mesh s)
      | Empty \<Rightarrow> 0
      | Mixed \<Rightarrow>
          integrate subArea faceI (plicInterfaceField s ! cellI) (sweptDistance s faceI))"

definition faceTransport ::
  "(label \<Rightarrow> plicInterface \<Rightarrow> scalar \<Rightarrow> scalar) \<Rightarrow> plicVofSolving \<Rightarrow> label \<Rightarrow> scalar"
where
  "faceTransport subArea s faceI =
     (let f = faces (mesh s) ! faceI
      in case neighbour f of
           Some n \<Rightarrow> transportByStatus subArea s faceI (upwindCell f (phi s ! faceI))
         | None \<Rightarrow>
             (case cachedInterface s faceI of
                Some plane \<Rightarrow> integrate subArea faceI plane (sweptDistance s faceI)
              | None \<Rightarrow> transportByStatus subArea s faceI (owner f)))"

definition timeIntegratedFlux ::
  "(label \<Rightarrow> plicInterface \<Rightarrow> scalar \<Rightarrow> scalar) \<Rightarrow> plicVofSolving \<Rightarrow> plicVofSolving"
where
  "timeIntegratedFlux subArea s =
     (let s1 = retainSnapshots s [0..<length (faces (mesh s))]
      in s1\<lparr>dVf := map (faceTransport subArea s1) [0..<length (faces (mesh s1))]\<rparr>)"

subsection \<open>Flux limiting and bounding\<close>

text \<open>
  Modelled from the spec: \<^verbatim>\<open>netFlux\<close> (declared only), the total volume
  leaving a cell: the transport volume of every face the cell owns, less that of every
  face it is the neighbour of.
\<close>

definition netFlux :: "fvMesh \<Rightarrow> scalar list \<Rightarrow> label \<Rightarrow> scalar" where
  "netFlux m dV cellI =
     sum_list
       (map (\<lambda>faceI.
               if owner (faces m ! faceI) = cellI then dV ! faceI
               else if neighbour (faces m ! faceI) = Some cellI then - (dV ! faceI)
               else 0)
          [0..<length (faces m)])"

text \<open>
  The fraction a cell would have after the sub-interval: its fraction less the net
  outflow over the cell volume.
\<close>

definition impliedAlpha :: "plicVofSolving \<Rightarrow> label \<Rightarrow> scalar" where
  "impliedAlpha s cellI =
     alpha1In s ! cellI - netFlux (mesh s) (dVf s) cellI / V (mesh s) ! cellI"

text \<open>
  Modelled from the spec: \<^verbatim>\<open>limitFluxes\<close> (declared only). One pass visits
  every cell; where the implied fraction falls outside \<open>[0, 1]\<close> the cell's outgoing
  fluxes are scaled down and the cell is flagged as bounded. The spec gives no formula
  for the scaling, so the corrected transport volumes are the parameter \<open>scaleDown\<close>.
  The number of passes is \<open>nAlphaBounds\<close>.
\<close>

fun limitCells ::
  "(plicVofSolving \<Rightarrow> label \<Rightarrow> scalar list) \<Rightarrow> plicVofSolving \<Rightarrow> label list \<Rightarrow> plicVofSolving"
where
  "limitCells scaleDown s [] = s"
| "limitCells scaleDown s (cellI # rest) =
     limitCells scaleDown
       (if impliedAlpha s cellI < 0 \<or> 1 < impliedAlpha s cellI
        then s\<lparr>dVf := scaleDown s cellI, cellIsBounded := (cellIsBounded s)[cellI := True]\<rparr>
        else s)
       rest"

definition limitPass ::
  "(plicVofSolving \<Rightarrow> label \<Rightarrow> scalar list) \<Rightarrow> plicVofSolving \<Rightarrow> plicVofSolving"
where
  "limitPass scaleDown s = limitCells scaleDown s [0..<length (alpha1In s)]"

definition limitFluxes ::
  "(plicVofSolving \<Rightarrow> label \<Rightarrow> scalar list) \<Rightarrow> plicVofSolving \<Rightarrow> plicVofSolving"
where
  "limitFluxes scaleDown s = (limitPass scaleDown ^^ nAlphaBounds s) s"

text \<open>
  Modelled from the spec: the update of the fraction field in place from the limited
  transport volumes.
\<close>

definition updateAlpha :: "plicVofSolving \<Rightarrow> plicVofSolving" where
  "updateAlpha s = s\<lparr>alpha1In := map (impliedAlpha s) [0..<length (alpha1In s)]\<rparr>"

text \<open>
  Modelled from the spec: \<^verbatim>\<open>applyBruteForceBounding\<close> (declared only), the
  unconditional clamp of the fraction field to \<open>[0, 1]\<close> after the limiter passes.
\<close>

definition applyBruteForceBounding :: "plicVofSolving \<Rightarrow> plicVofSolving" where
  "applyBruteForceBounding s = s\<lparr>alpha1In := map (\<lambda>a. min 1 (max 0 a)) (alpha1In s)\<rparr>"

text \<open>
  Modelled from the spec: one call of \<^verbatim>\<open>advection\<close> (declared only) over the
  sub-interval \<open>deltaT\<close>, on a single partition: flux integration, the limiter passes,
  the update of the fraction field, and the final bounding.
\<close>

definition advection ::
  "(label \<Rightarrow> plicInterface \<Rightarrow> scalar \<Rightarrow> scalar) \<Rightarrow> (plicVofSolving \<Rightarrow> label \<Rightarrow> scalar list) \<Rightarrow>
   plicVofSolving \<Rightarrow> plicVofSolving"
where
  "advection subArea scaleDown s =
     applyBruteForceBounding
       (updateAlpha (limitFluxes scaleDown (timeIntegratedFlux subArea s)))"

text \<open>
  The fields of a solver state fit its mesh: one fraction, one velocity and one positive
  volume per cell, one flux and one boundary velocity slot per face, and every face
  names cells of the mesh.
\<close>

definition wellFormed :: "plicVofSolving \<Rightarrow> bool" where
  "wellFormed s \<longleftrightarrow>
     length (alpha1In s) = nCells (mesh s)
     \<and> length (U s) = nCells (mesh s)
     \<and> length (V (mesh s)) = nCells (mesh s)
     \<and> list_all (\<lambda>v. 0 < v) (V (mesh s))
     \<and> length (phi s) = length (faces (mesh s))
     \<and> length (Ub s) = length (faces (mesh s))
     \<and> list_all
         (\<lambda>f. owner f < nCells (mesh s)
               \<and> (case neighbour f of None \<Rightarrow> True | Some n \<Rightarrow> n < nCells (mesh s)))
         (faces (mesh s))"

section \<open>Example states\<close>

definition unitFace :: face where
  "unitFace = \<lparr>owner = 0, neighbour = Some 1, nHat = (1, 0, 0)\<rparr>"

definition outletFace :: face where
  "outletFace = \<lparr>owner = 1, neighbour = None, nHat = (1, 0, 0)\<rparr>"

definition twoCellMesh :: fvMesh where
  "twoCellMesh = \<lparr>nCells = 2, topoChanging = False, deltaT = 1 / 2,
     faces = [unitFace, outletFace], V = [1, 1]\<rparr>"

definition twoCellSolver :: plicVofSolving where
  "twoCellSolver = \<lparr>mesh = twoCellMesh, alpha1In = [3 / 10, 1],
     plicInterfaceField =
       [\<lparr>planeNormal = (1, 0, 0), planeOffset = 3 / 10\<rparr>,
        \<lparr>planeNormal = (1, 0, 0), planeOffset = 0\<rparr>],
     phi = [2, 2], U = [(2, 0, 0), (2, 0, 0)], Ub = [(0, 0, 0), (2, 0, 0)],
     dVf = [1 / 4, 1],
     nAlphaBounds = 3, surfCellTol = 1 / 100000000,
     mixedCells = [1], cellStatus = [0], cellIsBounded = [True, False, True],
     checkBounding = [True], bsFaces = [1], bsUn0 = [1],
     bsInterface0 = [\<lparr>planeNormal = (0, 1, 0), planeOffset = 1\<rparr>]\<rparr>"

definition topoChangedSolver :: plicVofSolving where
  "topoChangedSolver = twoCellSolver\<lparr>mesh := twoCellMesh\<lparr>topoChanging := True\<rparr>\<rparr>"

definition coarseTolSolver :: plicVofSolving where
  "coarseTolSolver = twoCellSolver\<lparr>surfCellTol := 1 / 2\<rparr>"

definition stillSolver :: plicVofSolving where
  "stillSolver = twoCellSolver\<lparr>phi := [0, 0], U := [(0, 0, 0), (0, 0, 0)],
     Ub := [(0, 0, 0), (0, 0, 0)]\<rparr>"

text \<open>
  A face-cutting engine that finds half of every face wet, and a limiter correction that
  leaves the transport volumes as they are.
\<close>

definition halfWet :: "label \<Rightarrow> plicInterface \<Rightarrow> scalar \<Rightarrow> scalar" where
  "halfWet faceI plane sweep = 1 / 2"

definition noScaling :: "plicVofSolving \<Rightarrow> label \<Rightarrow> scalar list" where
  "noScaling s cellI = dVf s"

section \<open>Properties of the header's functions\<close>

subsection \<open>Auxiliary facts\<close>

lemma resize_length: "length (resize junk n xs) = n"
  by (simp add: resize_def)

lemma assignAll_replicate: "assignAll b xs = replicate (length xs) b"
  by (simp add: assignAll_def map_replicate_const)

lemma isAMixedCell_cong:
  "alpha1In t = alpha1In s \<Longrightarrow> surfCellTol t = surfCellTol s \<Longrightarrow>
   isAMixedCell t c = isAMixedCell s c"
  by (simp add: isAMixedCell_def)

lemma scanCells_mixedCells:
  "mixedCells (scanCells s cs) = mixedCells s @ filter (isAMixedCell s) cs"
proof (induction cs arbitrary: s)
  case Nil
  show ?case by simp
next
  case (Cons c cs)
  let ?t = "s\<lparr>mixedCells := mixedCells s @ [c]\<rparr>"
  have same: "isAMixedCell ?t = isAMixedCell s"
    by (rule ext) (simp add: isAMixedCell_def)
  show ?case
  proof (cases "isAMixedCell s c")
    case True
    have "mixedCells (scanCells s (c # cs)) = mixedCells (scanCells ?t cs)"
      using True by simp
    also have "\<dots> = mixedCells ?t @ filter (isAMixedCell ?t) cs"
      by (rule Cons.IH)
    finally show ?thesis using True same by simp
  next
    case False
    have "mixedCells (scanCells s (c # cs)) = mixedCells (scanCells s cs)"
      using False by simp
    then show ?thesis using Cons.IH [of s] False by simp
  qed
qed

lemma clearPlicInterfaceData_alpha1In:
  "alpha1In (clearPlicInterfaceData junk s) = alpha1In s"
  by (simp add: clearPlicInterfaceData_def Let_def)

lemma clearPlicInterfaceData_surfCellTol:
  "surfCellTol (clearPlicInterfaceData junk s) = surfCellTol s"
  by (simp add: clearPlicInterfaceData_def Let_def)

lemma clearPlicInterfaceData_mixedCells:
  "mixedCells (clearPlicInterfaceData junk s) = []"
  by (simp add: clearPlicInterfaceData_def Let_def)

lemma getMixedCellList_mixedCells:
  "mixedCells (getMixedCellList junk s) =
     filter (isAMixedCell s) [0..<length (alpha1In s)]"
proof -
  have "isAMixedCell (clearPlicInterfaceData junk s) = isAMixedCell s"
    by (rule ext)
      (rule isAMixedCell_cong, rule clearPlicInterfaceData_alpha1In,
        rule clearPlicInterfaceData_surfCellTol)
  then show ?thesis
    by (simp add: getMixedCellList_def scanCells_mixedCells clearPlicInterfaceData_mixedCells)
qed

subsection \<open>Classification by tolerance band\<close>

text \<open>
  Claim C5. A cell is mixed exactly when its fraction lies strictly between
  \<open>surfCellTol\<close> and \<open>1 - surfCellTol\<close>, empty exactly when the fraction is at most
  \<open>surfCellTol\<close>, full exactly when it is at least \<open>1 - surfCellTol\<close>; and the
  mixed-cell list built by the classification holds exactly the cells of the field that
  satisfy the strict mixed condition, each of them once.
\<close>

theorem cell_classification_bands:
  "(isAMixedCell s cellI \<longleftrightarrow>
      surfCellTol s < alpha1In s ! cellI \<and> alpha1In s ! cellI < 1 - surfCellTol s)
   \<and> (isAnEmptyCell s cellI \<longleftrightarrow> alpha1In s ! cellI \<le> surfCellTol s)
   \<and> (isAFullCell s cellI \<longleftrightarrow> alpha1In s ! cellI \<ge> 1 - surfCellTol s)
   \<and> set (mixedCells (getMixedCellList junk s)) =
       {c. c < length (alpha1In s) \<and> isAMixedCell s c}
   \<and> distinct (mixedCells (getMixedCellList junk s))"
  by (auto simp add: isAMixedCell_def isAnEmptyCell_def isAFullCell_def
      getMixedCellList_mixedCells)

theorem cell_classification_bands_witness:
  "isAMixedCell twoCellSolver 0 \<and> \<not> isAMixedCell twoCellSolver 1
   \<and> isAFullCell twoCellSolver 1 \<and> \<not> isAnEmptyCell twoCellSolver 1
   \<and> set (mixedCells (getMixedCellList (\<lambda>_. False) twoCellSolver)) = {0}"
proof -
  have len: "length (alpha1In twoCellSolver) = 2"
    by (simp add: twoCellSolver_def)
  have m0: "isAMixedCell twoCellSolver 0"
    by (simp add: isAMixedCell_def twoCellSolver_def)
  have m1: "\<not> isAMixedCell twoCellSolver 1"
    by (simp add: isAMixedCell_def twoCellSolver_def)
  have f1: "isAFullCell twoCellSolver 1"
    by (simp add: isAFullCell_def twoCellSolver_def)
  have e1: "\<not> isAnEmptyCell twoCellSolver 1"
    by (simp add: isAnEmptyCell_def twoCellSolver_def)
  have "{c. c < length (alpha1In twoCellSolver) \<and> isAMixedCell twoCellSolver c} = {0}"
    using m0 m1 len by (auto simp add: less_Suc_eq numeral_2_eq_2)
  with cell_classification_bands [of twoCellSolver 0 "\<lambda>_. False"] m0 m1 f1 e1
  show ?thesis by simp
qed

text \<open>
  Claim C9. For every cell and every fraction value at least one of the three
  predicates holds. When \<open>surfCellTol < 0.5\<close> exactly one of them holds, so the three
  bands partition the cells. When \<open>surfCellTol \<ge> 0.5\<close> a cell can be empty and full at
  once: some fraction value put in the cell satisfies both predicates.
\<close>

theorem cell_classification_partition:
  "(isAnEmptyCell s cellI \<or> isAMixedCell s cellI \<or> isAFullCell s cellI)
   \<and> (surfCellTol s < 1 / 2 \<longrightarrow>
        (isAnEmptyCell s cellI \<and> \<not> isAMixedCell s cellI \<and> \<not> isAFullCell s cellI)
      \<or> (\<not> isAnEmptyCell s cellI \<and> isAMixedCell s cellI \<and> \<not> isAFullCell s cellI)
      \<or> (\<not> isAnEmptyCell s cellI \<and> \<not> isAMixedCell s cellI \<and> isAFullCell s cellI))
   \<and> (surfCellTol s \<ge> 1 / 2 \<and> cellI < length (alpha1In s) \<longrightarrow>
        (\<exists>a. isAnEmptyCell (s\<lparr>alpha1In := (alpha1In s)[cellI := a]\<rparr>) cellI
           \<and> isAFullCell (s\<lparr>alpha1In := (alpha1In s)[cellI := a]\<rparr>) cellI))"
proof (intro conjI impI)
  show "isAnEmptyCell s cellI \<or> isAMixedCell s cellI \<or> isAFullCell s cellI"
    by (auto simp add: isAnEmptyCell_def isAMixedCell_def isAFullCell_def)
next
  assume "surfCellTol s < 1 / 2"
  then show "(isAnEmptyCell s cellI \<and> \<not> isAMixedCell s cellI \<and> \<not> isAFullCell s cellI)
      \<or> (\<not> isAnEmptyCell s cellI \<and> isAMixedCell s cellI \<and> \<not> isAFullCell s cellI)
      \<or> (\<not> isAnEmptyCell s cellI \<and> \<not> isAMixedCell s cellI \<and> isAFullCell s cellI)"
    by (auto simp add: isAnEmptyCell_def isAMixedCell_def isAFullCell_def)
next
  assume h: "surfCellTol s \<ge> 1 / 2 \<and> cellI < length (alpha1In s)"
  let ?t = "s\<lparr>alpha1In := (alpha1In s)[cellI := 1 / 2]\<rparr>"
  have "isAnEmptyCell ?t cellI \<and> isAFullCell ?t cellI"
    using h by (simp add: isAnEmptyCell_def isAFullCell_def)
  then show "\<exists>a. isAnEmptyCell (s\<lparr>alpha1In := (alpha1In s)[cellI := a]\<rparr>) cellI
           \<and> isAFullCell (s\<lparr>alpha1In := (alpha1In s)[cellI := a]\<rparr>) cellI"
    by (rule exI)
qed

theorem cell_classification_partition_witness:
  "surfCellTol twoCellSolver < 1 / 2
   \<and> \<not> isAnEmptyCell twoCellSolver 0 \<and> isAMixedCell twoCellSolver 0
   \<and> \<not> isAFullCell twoCellSolver 0
   \<and> surfCellTol coarseTolSolver \<ge> 1 / 2 \<and> (1::nat) < length (alpha1In coarseTolSolver)
   \<and> (\<exists>a. isAnEmptyCell
              (coarseTolSolver\<lparr>alpha1In := (alpha1In coarseTolSolver)[1 := a]\<rparr>) 1
         \<and> isAFullCell
              (coarseTolSolver\<lparr>alpha1In := (alpha1In coarseTolSolver)[1 := a]\<rparr>) 1)"
proof -
  have fine: "surfCellTol twoCellSolver < 1 / 2"
    by (simp add: twoCellSolver_def)
  have mixed: "isAMixedCell twoCellSolver 0"
    by (simp add: isAMixedCell_def twoCellSolver_def)
  have coarse: "surfCellTol coarseTolSolver \<ge> 1 / 2 \<and> 1 < length (alpha1In coarseTolSolver)"
    by (simp add: coarseTolSolver_def twoCellSolver_def)
  show ?thesis
    using cell_classification_partition [of twoCellSolver 0]
      cell_classification_partition [of coarseTolSolver 1] fine mixed coarse
    by blast
qed

subsection \<open>Clearing the interface data\<close>

text \<open>
  Claim C7. When the mesh reports a topology change, \<open>clearPlicInterfaceData\<close> empties
  the mixed-cell list, the cell-status list, the boundary-face list, the boundary
  interface-speed list and the boundary interface cache, and leaves both bounding flag
  arrays with exactly one entry per cell of the new mesh, every entry false: nothing the
  lists and flags held before the change survives it.
\<close>

theorem clearPlicInterfaceData_topoChange:
  assumes "topoChanging (mesh s)"
  shows "mixedCells (clearPlicInterfaceData junk s) = []
    \<and> cellStatus (clearPlicInterfaceData junk s) = []
    \<and> bsFaces (clearPlicInterfaceData junk s) = []
    \<and> bsUn0 (clearPlicInterfaceData junk s) = []
    \<and> bsInterface0 (clearPlicInterfaceData junk s) = []
    \<and> checkBounding (clearPlicInterfaceData junk s) = replicate (nCells (mesh s)) False
    \<and> cellIsBounded (clearPlicInterfaceData junk s) = replicate (nCells (mesh s)) False"
  using assms
  by (simp add: clearPlicInterfaceData_def Let_def assignAll_replicate resize_length)

theorem clearPlicInterfaceData_topoChange_witness:
  "topoChanging (mesh topoChangedSolver)
   \<and> mixedCells topoChangedSolver = [1] \<and> bsFaces topoChangedSolver = [1]
   \<and> checkBounding topoChangedSolver = [True]
   \<and> cellIsBounded topoChangedSolver = [True, False, True]
   \<and> mixedCells (clearPlicInterfaceData (\<lambda>_. True) topoChangedSolver) = []
   \<and> cellStatus (clearPlicInterfaceData (\<lambda>_. True) topoChangedSolver) = []
   \<and> bsFaces (clearPlicInterfaceData (\<lambda>_. True) topoChangedSolver) = []
   \<and> bsUn0 (clearPlicInterfaceData (\<lambda>_. True) topoChangedSolver) = []
   \<and> bsInterface0 (clearPlicInterfaceData (\<lambda>_. True) topoChangedSolver) = []
   \<and> checkBounding (clearPlicInterfaceData (\<lambda>_. True) topoChangedSolver) = [False, False]
   \<and> cellIsBounded (clearPlicInterfaceData (\<lambda>_. True) topoChangedSolver) = [False, False]"
proof -
  have topo: "topoChanging (mesh topoChangedSolver)"
    by (simp add: topoChangedSolver_def)
  have n: "nCells (mesh topoChangedSolver) = 2"
    by (simp add: topoChangedSolver_def twoCellMesh_def)
  have before: "mixedCells topoChangedSolver = [1] \<and> bsFaces topoChangedSolver = [1]
     \<and> checkBounding topoChangedSolver = [True]
     \<and> cellIsBounded topoChangedSolver = [True, False, True]"
    by (simp add: topoChangedSolver_def twoCellSolver_def)
  show ?thesis
    using clearPlicInterfaceData_topoChange [OF topo, of "\<lambda>_. True"] topo before
    by (simp add: n numeral_2_eq_2)
qed

text \<open>
  Claim C10. Whether or not the mesh topology has changed, \<open>clearPlicInterfaceData\<close>
  empties the boundary interface cache, the boundary-face list and the boundary-speed
  list and sets every entry of both bounding flag arrays to false. Only the size of the
  two flag arrays depends on the topology flag: the cell count of the mesh when it is
  set, the size the array already had when it is not.
\<close>

theorem clearPlicInterfaceData_unconditional:
  "bsInterface0 (clearPlicInterfaceData junk s) = []
   \<and> bsFaces (clearPlicInterfaceData junk s) = []
   \<and> bsUn0 (clearPlicInterfaceData junk s) = []
   \<and> checkBounding (clearPlicInterfaceData junk s) =
       replicate (if topoChanging (mesh s) then nCells (mesh s)
                  else length (checkBounding s)) False
   \<and> cellIsBounded (clearPlicInterfaceData junk s) =
       replicate (if topoChanging (mesh s) then nCells (mesh s)
                  else length (cellIsBounded s)) False"
proof (cases "topoChanging (mesh s)")
  case True
  then show ?thesis
    by (simp add: clearPlicInterfaceData_def Let_def assignAll_replicate resize_length)
next
  case False
  then show ?thesis
    by (simp add: clearPlicInterfaceData_def Let_def assignAll_replicate)
qed

theorem clearPlicInterfaceData_unconditional_witness:
  "\<not> topoChanging (mesh twoCellSolver)
   \<and> nCells (mesh twoCellSolver) = 2
   \<and> bsInterface0 twoCellSolver \<noteq> [] \<and> bsFaces twoCellSolver = [1]
   \<and> bsUn0 twoCellSolver = [1]
   \<and> checkBounding twoCellSolver = [True]
   \<and> cellIsBounded twoCellSolver = [True, False, True]
   \<and> bsInterface0 (clearPlicInterfaceData (\<lambda>_. True) twoCellSolver) = []
   \<and> bsFaces (clearPlicInterfaceData (\<lambda>_. True) twoCellSolver) = []
   \<and> bsUn0 (clearPlicInterfaceData (\<lambda>_. True) twoCellSolver) = []
   \<and> checkBounding (clearPlicInterfaceData (\<lambda>_. True) twoCellSolver) = [False]
   \<and> cellIsBounded (clearPlicInterfaceData (\<lambda>_. True) twoCellSolver) =
       [False, False, False]"
proof -
  have before: "\<not> topoChanging (mesh twoCellSolver)
     \<and> nCells (mesh twoCellSolver) = 2
     \<and> bsInterface0 twoCellSolver \<noteq> [] \<and> bsFaces twoCellSolver = [1]
     \<and> bsUn0 twoCellSolver = [1]
     \<and> checkBounding twoCellSolver = [True]
     \<and> cellIsBounded twoCellSolver = [True, False, True]"
    by (simp add: twoCellSolver_def twoCellMesh_def)
  show ?thesis
    using clearPlicInterfaceData_unconditional [of "\<lambda>_. True" twoCellSolver] before
    by (simp add: numeral_3_eq_3)
qed

subsection \<open>The mass flux\<close>

text \<open>
  Claim C8. For all densities \<open>rho1\<close> and \<open>rho2\<close> and every face, the field returned
  by \<open>getRhoPhi\<close> has the value \<open>(rho1 - rho2) * dVf / deltaT + rho2 * phi\<close> at that
  face, with \<open>dVf\<close> the face's transport volume, \<open>deltaT\<close> the time step and \<open>phi\<close> the
  face flux; and the call leaves the solver state as it was.
\<close>

theorem getRhoPhi_faceValue:
  assumes "faceI < length (dVf s)" and "faceI < length (phi s)"
  shows "fst (getRhoPhi s rho1 rho2) ! faceI =
           (rho1 - rho2) * (dVf s ! faceI) / deltaT (mesh s) + rho2 * (phi s ! faceI)
         \<and> snd (getRhoPhi s rho1 rho2) = s"
  using assms
  by (simp add: getRhoPhi_def fieldPlus_def fieldDivScalar_def scalarTimesField_def)

theorem getRhoPhi_faceValue_witness:
  "(0::nat) < length (dVf twoCellSolver) \<and> 0 < length (phi twoCellSolver)
   \<and> fst (getRhoPhi twoCellSolver 1000 1) ! 0 = 1003 / 2
   \<and> snd (getRhoPhi twoCellSolver 1000 1) = twoCellSolver"
proof -
  have a: "0 < length (dVf twoCellSolver)" and b: "0 < length (phi twoCellSolver)"
    by (simp_all add: twoCellSolver_def)
  have vals: "dVf twoCellSolver ! 0 = 1 / 4" "phi twoCellSolver ! 0 = 2"
    "deltaT (mesh twoCellSolver) = 1 / 2"
    by (simp_all add: twoCellSolver_def twoCellMesh_def)
  show ?thesis
    using getRhoPhi_faceValue [OF a b, of 1000 1] a b by (simp add: vals)
qed

section \<open>Properties of the specified advection step\<close>

subsection \<open>Auxiliary facts\<close>

lemma retainSnapshots_frame:
  "mesh (retainSnapshots s fs) = mesh s
   \<and> alpha1In (retainSnapshots s fs) = alpha1In s
   \<and> phi (retainSnapshots s fs) = phi s
   \<and> U (retainSnapshots s fs) = U s
   \<and> Ub (retainSnapshots s fs) = Ub s
   \<and> dVf (retainSnapshots s fs) = dVf s
   \<and> surfCellTol (retainSnapshots s fs) = surfCellTol s
   \<and> nAlphaBounds (retainSnapshots s fs) = nAlphaBounds s"
  by (induction fs arbitrary: s) simp_all

lemma limitCells_frame:
  "mesh (limitCells scaleDown s cs) = mesh s
   \<and> alpha1In (limitCells scaleDown s cs) = alpha1In s
   \<and> nAlphaBounds (limitCells scaleDown s cs) = nAlphaBounds s"
  by (induction cs arbitrary: s) simp_all

lemma map_all_const:
  "(\<And>x. x \<in> set xs \<Longrightarrow> f x = c) \<Longrightarrow> map f xs = replicate (length xs) c"
  by (induction xs) simp_all

lemma sum_list_all_zero:
  fixes f :: "'a \<Rightarrow> real"
  shows "(\<And>x. x \<in> set xs \<Longrightarrow> f x = 0) \<Longrightarrow> sum_list (map f xs) = 0"
  by (induction xs) simp_all

lemma dot_zero: "dot (0, 0, 0) n = 0"
  by (cases n) (simp add: dot_def)

lemma wellFormed_owner:
  "wellFormed s \<Longrightarrow> faceI < length (faces (mesh s)) \<Longrightarrow>
   owner (faces (mesh s) ! faceI) < length (U s)"
  by (simp add: wellFormed_def list_all_length)

lemma wellFormed_neighbour:
  "wellFormed s \<Longrightarrow> faceI < length (faces (mesh s)) \<Longrightarrow>
   neighbour (faces (mesh s) ! faceI) = Some n \<Longrightarrow> n < length (U s)"
  by (auto simp add: wellFormed_def list_all_length split: option.splits)

lemma faceVelocity_zero:
  assumes wf: "wellFormed s"
    and u: "list_all (\<lambda>u. u = (0, 0, 0)) (U s)"
    and ub: "list_all (\<lambda>u. u = (0, 0, 0)) (Ub s)"
    and f: "faceI < length (faces (mesh s))"
  shows "faceVelocity s faceI = (0, 0, 0)"
proof (cases "neighbour (faces (mesh s) ! faceI)")
  case None
  have "faceI < length (Ub s)" using wf f by (simp add: wellFormed_def)
  then have "Ub s ! faceI = (0, 0, 0)" using ub by (simp add: list_all_length)
  then show ?thesis using None by (simp add: faceVelocity_def)
next
  case (Some n)
  have "upwindCell (faces (mesh s) ! faceI) (phi s ! faceI) < length (U s)"
    using wellFormed_owner [OF wf f] wellFormed_neighbour [OF wf f Some] Some
    by (simp add: upwindCell_def)
  then have "U s ! upwindCell (faces (mesh s) ! faceI) (phi s ! faceI) = (0, 0, 0)"
    using u by (simp add: list_all_length)
  then show ?thesis using Some by (simp add: faceVelocity_def)
qed

lemma sweptDistance_zero:
  "wellFormed s \<Longrightarrow> list_all (\<lambda>u. u = (0, 0, 0)) (U s) \<Longrightarrow>
   list_all (\<lambda>u. u = (0, 0, 0)) (Ub s) \<Longrightarrow> faceI < length (faces (mesh s)) \<Longrightarrow>
   sweptDistance s faceI = 0"
  by (simp add: sweptDistance_def faceVelocity_zero dot_zero)

lemma transportByStatus_zero:
  "phi s ! faceI = 0 \<Longrightarrow> sweptDistance s faceI = 0 \<Longrightarrow>
   transportByStatus subArea s faceI cellI = 0"
  by (simp add: transportByStatus_def integrate_def split: CellStatus.split)

lemma faceTransport_zero:
  "phi s ! faceI = 0 \<Longrightarrow> sweptDistance s faceI = 0 \<Longrightarrow> faceTransport subArea s faceI = 0"
  by (simp add: faceTransport_def Let_def transportByStatus_zero integrate_def
      split: option.split)

lemma wellFormed_retainSnapshots:
  "wellFormed (retainSnapshots s fs) = wellFormed s"
  by (simp add: wellFormed_def retainSnapshots_frame cong: option.case_cong)

lemma timeIntegratedFlux_zero:
  assumes wf: "wellFormed s"
    and p: "list_all (\<lambda>p. p = 0) (phi s)"
    and u: "list_all (\<lambda>u. u = (0, 0, 0)) (U s)"
    and ub: "list_all (\<lambda>u. u = (0, 0, 0)) (Ub s)"
  shows "dVf (timeIntegratedFlux subArea s) = replicate (length (faces (mesh s))) 0"
proof -
  let ?s1 = "retainSnapshots s [0..<length (faces (mesh s))]"
  have wf1: "wellFormed ?s1" using wf by (simp add: wellFormed_retainSnapshots)
  have u1: "list_all (\<lambda>u. u = (0, 0, 0)) (U ?s1)" using u by (simp add: retainSnapshots_frame)
  have ub1: "list_all (\<lambda>u. u = (0, 0, 0)) (Ub ?s1)"
    using ub by (simp add: retainSnapshots_frame)
  have m1: "mesh ?s1 = mesh s" by (simp add: retainSnapshots_frame)
  have zero: "faceTransport subArea ?s1 faceI = 0"
    if "faceI \<in> set [0..<length (faces (mesh s))]" for faceI
  proof -
    have f: "faceI < length (faces (mesh ?s1))" using that m1 by simp
    have "faceI < length (phi s)" using wf that by (simp add: wellFormed_def)
    then have "phi ?s1 ! faceI = 0"
      using p by (simp add: retainSnapshots_frame list_all_length)
    then show ?thesis
      using sweptDistance_zero [OF wf1 u1 ub1 f] by (rule faceTransport_zero)
  qed
  have "dVf (timeIntegratedFlux subArea s) =
          map (faceTransport subArea ?s1) [0..<length (faces (mesh s))]"
    by (simp add: timeIntegratedFlux_def Let_def m1)
  also have "\<dots> = replicate (length [0..<length (faces (mesh s))]) 0"
    using zero by (rule map_all_const)
  finally show ?thesis by simp
qed

lemma timeIntegratedFlux_frame:
  "mesh (timeIntegratedFlux subArea s) = mesh s
   \<and> alpha1In (timeIntegratedFlux subArea s) = alpha1In s
   \<and> nAlphaBounds (timeIntegratedFlux subArea s) = nAlphaBounds s"
  by (simp add: timeIntegratedFlux_def Let_def retainSnapshots_frame)

lemma netFlux_zero: "netFlux m (replicate (length (faces m)) 0) cellI = 0"
  unfolding netFlux_def by (rule sum_list_all_zero) simp

lemma limitCells_noop:
  "\<forall>c \<in> set cs. 0 \<le> impliedAlpha s c \<and> impliedAlpha s c \<le> 1 \<Longrightarrow>
   limitCells scaleDown s cs = s"
  by (induction cs) (simp_all add: not_less)

lemma funpow_fixed: "f x = x \<Longrightarrow> (f ^^ n) x = x"
  by (induction n) simp_all


lemma limitFluxes_noop:
  assumes "\<forall>c < length (alpha1In s). 0 \<le> impliedAlpha s c \<and> impliedAlpha s c \<le> 1"
  shows "limitFluxes scaleDown s = s"
proof -
  have "\<forall>c \<in> set [0..<length (alpha1In s)]. 0 \<le> impliedAlpha s c \<and> impliedAlpha s c \<le> 1"
    using assms by simp
  then have "limitPass scaleDown s = s"
    unfolding limitPass_def by (rule limitCells_noop)
  then show ?thesis
    by (simp add: limitFluxes_def funpow_fixed)
qed

lemma limitPass_funpow_alpha1In:
  "alpha1In ((limitPass scaleDown ^^ n) s) = alpha1In s"
  by (induction n) (simp_all add: limitPass_def limitCells_frame)

lemma limitFluxes_alpha1In: "alpha1In (limitFluxes scaleDown s) = alpha1In s"
  by (simp add: limitFluxes_def limitPass_funpow_alpha1In)

lemma advection_alpha1In:
  "alpha1In (advection subArea scaleDown s) =
     map (\<lambda>cellI. min 1 (max 0
            (impliedAlpha (limitFluxes scaleDown (timeIntegratedFlux subArea s)) cellI)))
       [0..<length (alpha1In s)]"
  by (simp add: advection_def applyBruteForceBounding_def updateAlpha_def
      limitFluxes_alpha1In timeIntegratedFlux_frame)

subsection \<open>Boundedness of the fraction field\<close>

text \<open>
  Claim C1. After a completed advection call, with its limiter passes and the final
  brute-force bounding, the fraction field still has one value per cell and the value of
  every cell lies in \<open>[0, 1]\<close>, whatever the state before the call, the face-cutting
  engine and the limiter's scaling are.
\<close>

theorem advection_bounded:
  "length (alpha1In (advection subArea scaleDown s)) = length (alpha1In s)
   \<and> (\<forall>cellI < length (alpha1In s).
         0 \<le> alpha1In (advection subArea scaleDown s) ! cellI
         \<and> alpha1In (advection subArea scaleDown s) ! cellI \<le> 1)"
proof (intro conjI allI impI)
  show "length (alpha1In (advection subArea scaleDown s)) = length (alpha1In s)"
    by (simp add: advection_alpha1In)
next
  fix cellI
  assume inside: "cellI < length (alpha1In s)"
  let ?raw = "impliedAlpha (limitFluxes scaleDown (timeIntegratedFlux subArea s)) cellI"
  have clamped: "alpha1In (advection subArea scaleDown s) ! cellI = min 1 (max 0 ?raw)"
    using inside by (simp add: advection_alpha1In)
  show "0 \<le> alpha1In (advection subArea scaleDown s) ! cellI"
    unfolding clamped by simp
  show "alpha1In (advection subArea scaleDown s) ! cellI \<le> 1"
    unfolding clamped by simp
qed

theorem advection_bounded_witness:
  "impliedAlpha (limitFluxes noScaling (timeIntegratedFlux halfWet twoCellSolver)) 0 = - (1 / 5)
   \<and> length (alpha1In (advection halfWet noScaling twoCellSolver)) = 2
   \<and> 0 \<le> alpha1In (advection halfWet noScaling twoCellSolver) ! 0
   \<and> alpha1In (advection halfWet noScaling twoCellSolver) ! 0 \<le> 1
   \<and> 0 \<le> alpha1In (advection halfWet noScaling twoCellSolver) ! 1
   \<and> alpha1In (advection halfWet noScaling twoCellSolver) ! 1 \<le> 1"
proof -
  have raw: "impliedAlpha (limitFluxes noScaling (timeIntegratedFlux halfWet twoCellSolver)) 0
      = - (1 / 5)"
    by code_simp
  have len: "length (alpha1In twoCellSolver) = 2"
    by (simp add: twoCellSolver_def)
  show ?thesis
    using advection_bounded [of halfWet noScaling twoCellSolver] raw len by simp
qed

subsection \<open>Zero-velocity invariance\<close>

text \<open>
  Claim C4. When the flux field \<open>phi\<close> and the velocity field \<open>U\<close> (its internal and
  its boundary part) are zero everywhere, a full advection call leaves the transport
  volume \<open>dVf\<close> of every face zero and the fraction field equal, cell by cell, to what
  it was before the call. The state is one whose fields fit the mesh and whose fraction
  field is a volume-fraction field, every value in \<open>[0, 1]\<close>.
\<close>

theorem advection_zero_velocity:
  assumes wf: "wellFormed s"
    and p: "list_all (\<lambda>p. p = 0) (phi s)"
    and u: "list_all (\<lambda>u. u = (0, 0, 0)) (U s)"
    and ub: "list_all (\<lambda>u. u = (0, 0, 0)) (Ub s)"
    and a: "list_all (\<lambda>a. 0 \<le> a \<and> a \<le> 1) (alpha1In s)"
  shows "dVf (advection subArea scaleDown s) = replicate (length (faces (mesh s))) 0
    \<and> alpha1In (advection subArea scaleDown s) = alpha1In s"
proof -
  let ?s2 = "timeIntegratedFlux subArea s"
  have d: "dVf ?s2 = replicate (length (faces (mesh s))) 0"
    using wf p u ub by (rule timeIntegratedFlux_zero)
  then have d2: "dVf ?s2 = replicate (length (faces (mesh ?s2))) 0"
    by (simp add: timeIntegratedFlux_frame)
  have implied: "impliedAlpha ?s2 c = alpha1In s ! c" for c
    by (simp add: impliedAlpha_def d2 netFlux_zero timeIntegratedFlux_frame)
  have "\<forall>c < length (alpha1In ?s2). 0 \<le> impliedAlpha ?s2 c \<and> impliedAlpha ?s2 c \<le> 1"
    using a by (simp add: implied timeIntegratedFlux_frame list_all_length)
  then have s3: "limitFluxes scaleDown ?s2 = ?s2"
    by (rule limitFluxes_noop)
  have "impliedAlpha ?s2 = (\<lambda>c. alpha1In s ! c)"
    by (rule ext) (rule implied)
  then have "map (impliedAlpha ?s2) [0..<length (alpha1In ?s2)] = alpha1In s"
    by (simp add: timeIntegratedFlux_frame map_nth)
  then have upd: "alpha1In (updateAlpha ?s2) = alpha1In s"
    by (simp add: updateAlpha_def)
  have clamp: "map (\<lambda>a. min 1 (max 0 a)) (alpha1In s) = alpha1In s"
    using a by (intro map_idI) (simp add: list_all_iff)
  have "alpha1In (advection subArea scaleDown s) = alpha1In s"
    by (simp add: advection_def s3 applyBruteForceBounding_def upd clamp)
  moreover have "dVf (advection subArea scaleDown s) = replicate (length (faces (mesh s))) 0"
    using d by (simp add: advection_def s3 applyBruteForceBounding_def updateAlpha_def)
  ultimately show ?thesis by simp
qed

theorem advection_zero_velocity_witness:
  "wellFormed stillSolver
   \<and> list_all (\<lambda>p. p = 0) (phi stillSolver)
   \<and> list_all (\<lambda>u. u = (0, 0, 0)) (U stillSolver)
   \<and> list_all (\<lambda>u. u = (0, 0, 0)) (Ub stillSolver)
   \<and> list_all (\<lambda>a. 0 \<le> a \<and> a \<le> 1) (alpha1In stillSolver)
   \<and> dVf stillSolver = [1 / 4, 1]
   \<and> dVf (advection halfWet noScaling stillSolver) = [0, 0]
   \<and> alpha1In (advection halfWet noScaling stillSolver) = [3 / 10, 1]"
proof -
  have wf: "wellFormed stillSolver"
    by (simp add: wellFormed_def stillSolver_def twoCellSolver_def twoCellMesh_def
        unitFace_def outletFace_def)
  have p: "list_all (\<lambda>p. p = 0) (phi stillSolver)"
    and u: "list_all (\<lambda>u. u = (0, 0, 0)) (U stillSolver)"
    and ub: "list_all (\<lambda>u. u = (0, 0, 0)) (Ub stillSolver)"
    and a: "list_all (\<lambda>a. 0 \<le> a \<and> a \<le> 1) (alpha1In stillSolver)"
    by (simp_all add: stillSolver_def twoCellSolver_def)
  have before: "dVf stillSolver = [1 / 4, 1]" "alpha1In stillSolver = [3 / 10, 1]"
    "length (faces (mesh stillSolver)) = 2"
    by (simp_all add: stillSolver_def twoCellSolver_def twoCellMesh_def)
  show ?thesis
    using advection_zero_velocity [OF wf p u ub a, of halfWet noScaling] wf p u ub a before
    by (simp add: numeral_2_eq_2)
qed

end
